theory Spec2Isabelle
  imports Main
begin

section \<open>The photo gallery of \<open>App.tsx\<close>: pagination and screen navigation\<close>

text \<open>
  \<open>App\<close> is a React function component. Its state is the seven \<open>useState\<close> cells of
  lines 19-29 and the value of the \<open>useCameraPermissions\<close> hook of line 31. Its
  handlers are \<open>async\<close> functions: each runs synchronously up to its first \<open>await\<close> of a
  platform call, and the rest of its body runs when the platform settles that call.

  The model is an event system over a record of that state.
  \<^item> A handler \<open>f\<close> is the part of the source function before its \<open>await\<close>;
    \<open>f_resume\<close> is the part after it, applied to the platform's answer, with \<open>None\<close> for
    a rejected promise (the \<open>catch\<close> branch, where the source has one).
  \<^item> An awaited call is an entry of the list \<open>pending\<close>; it stays there until an event
    \<open>Settle\<close> answers it, so any number of calls may be outstanding and they may be
    answered in any order.
  \<^item> \<open>f\<close> and \<open>f_resume\<close> give the state at the end of a synchronous stretch of the
    handler, after all its setters. Which states are committed on the way depends on
    the React root the component is mounted on, which the source does not fix; the
    section on committed states lists them for both kinds of root.
  \<^item> A handler reads the values of the last render, which are the values of the state
    it is applied to. What a handler captured before its \<open>await\<close> and uses after it
    (the selected asset of share and delete) is stored in the pending entry.
  \<^item> \<open>Alert.alert\<close> appends to the log \<open>alerts\<close>. A rejection that no \<open>catch\<close> of the
    handler receives leaves the handler; \<open>unhandledRejections\<close> counts them.
\<close>

subsection \<open>Data\<close>

datatype ScreenName = gallery | camera | viewer

text \<open>\<open>MediaLibrary.Asset\<close>: the two fields the application reads.\<close>

record Asset =
  id_asset :: string
  uri :: string

text \<open>The page \<open>getAssetsAsync\<close> resolves to; \<open>endCursor ?? null\<close> is the option.\<close>

record PagedInfo =
  result_assets :: "Asset list"
  result_endCursor :: "string option"
  result_hasNextPage :: bool

record PermissionResponse =
  granted :: bool

text \<open>
  The platform calls a handler can be waiting for, each with what the rest of the handler
  needs. The flag of \<open>GetAssetsInitial\<close> is true when \<open>loadInitialAssets\<close> was reached
  from \<open>onShotSaved\<close> (lines 223-226), which sets the screen once \<open>refreshAssets\<close> returns.
\<close>

datatype pending =
    GetAssetsInitial bool
  | GetAssetsMore "string option"
  | RequestCameraPermission
  | IsAvailable Asset
  | ShareAsync Asset
  | DeleteAssets Asset

datatype response =
    Rejected
  | Page PagedInfo
  | Permission PermissionResponse
  | Available bool
  | Done

record app_state =
  hasMediaPermission :: "bool option"
  assets :: "Asset list"
  endCursor :: "string option"
  hasNextPage :: bool
  isLoadingAssets :: bool
  screen :: ScreenName
  selectedAsset :: "Asset option"
  cameraPermission :: "PermissionResponse option"
  alerts :: "(string \<times> string) list"
  unhandledRejections :: nat
  pending :: "pending list"

definition init :: app_state where
  "init = \<lparr>hasMediaPermission = None, assets = [], endCursor = None, hasNextPage = True,
     isLoadingAssets = False, screen = gallery, selectedAsset = None,
     cameraPermission = None, alerts = [], unhandledRejections = 0, pending = []\<rparr>"

definition alert :: "string \<Rightarrow> string \<Rightarrow> app_state \<Rightarrow> app_state" where
  "alert title message s = s\<lparr>alerts := alerts s @ [(title, message)]\<rparr>"

definition await :: "pending \<Rightarrow> app_state \<Rightarrow> app_state" where
  "await call s = s\<lparr>pending := pending s @ [call]\<rparr>"

subsection \<open>The handlers\<close>

text \<open>Lines 45-62.\<close>

definition loadInitialAssets :: "bool \<Rightarrow> app_state \<Rightarrow> app_state" where
  "loadInitialAssets fromShot s =
     await (GetAssetsInitial fromShot) (s\<lparr>isLoadingAssets := True\<rparr>)"

definition loadInitialAssets_resume :: "PagedInfo option \<Rightarrow> app_state \<Rightarrow> app_state" where
  "loadInitialAssets_resume r s =
     (case r of
        Some result \<Rightarrow>
          s\<lparr>assets := result_assets result,
            endCursor := result_endCursor result,
            hasNextPage := result_hasNextPage result\<rparr>
      | None \<Rightarrow> alert ''Error'' ''Failed to load photos.'' s)
     \<lparr>isLoadingAssets := False\<rparr>"

text \<open>Lines 64-82. The list is extended by a functional update, so from its value
  at the time the page arrives.\<close>

definition loadMoreAssets :: "app_state \<Rightarrow> app_state" where
  "loadMoreAssets s =
     (if \<not> hasNextPage s \<or> isLoadingAssets s then s
      else await (GetAssetsMore (endCursor s)) (s\<lparr>isLoadingAssets := True\<rparr>))"

definition loadMoreAssets_resume :: "PagedInfo option \<Rightarrow> app_state \<Rightarrow> app_state" where
  "loadMoreAssets_resume r s =
     (case r of
        Some result \<Rightarrow>
          s\<lparr>assets := assets s @ result_assets result,
            endCursor := result_endCursor result,
            hasNextPage := result_hasNextPage result\<rparr>
      | None \<Rightarrow> alert ''Error'' ''Failed to load more photos.'' s)
     \<lparr>isLoadingAssets := False\<rparr>"

text \<open>Lines 84-88.\<close>

definition refreshAssets :: "bool \<Rightarrow> app_state \<Rightarrow> app_state" where
  "refreshAssets fromShot s =
     loadInitialAssets fromShot (s\<lparr>endCursor := None, hasNextPage := True\<rparr>)"

text \<open>Lines 96-109. \<open>Platform.OS\<close> is the argument \<open>os\<close>, and \<open>isGranted\<close> is
  \<open>cameraPermission?.granted\<close> read as a condition. A rejection of
  \<open>requestCameraPermission\<close> is not caught: the handler ends there.\<close>

definition isGranted :: "PermissionResponse option \<Rightarrow> bool" where
  "isGranted p = (case p of None \<Rightarrow> False | Some res \<Rightarrow> granted res)"

definition openCamera :: "string \<Rightarrow> app_state \<Rightarrow> app_state" where
  "openCamera os s =
     (if os = ''web''
      then alert ''Not supported'' ''Camera is not supported on web in this demo.'' s
      else if \<not> isGranted (cameraPermission s)
      then await RequestCameraPermission s
      else s\<lparr>screen := camera\<rparr>)"

definition openCamera_resume :: "PermissionResponse option \<Rightarrow> app_state \<Rightarrow> app_state" where
  "openCamera_resume r s =
     (case r of
        None \<Rightarrow> s\<lparr>unhandledRejections := Suc (unhandledRejections s)\<rparr>
      | Some res \<Rightarrow>
          if \<not> granted res
          then alert ''Permission required'' ''Camera access is needed to take photos.'' s
          else s\<lparr>screen := camera\<rparr>)"

text \<open>Lines 111-114.\<close>

definition onSelectAsset :: "Asset \<Rightarrow> app_state \<Rightarrow> app_state" where
  "onSelectAsset asset s = s\<lparr>selectedAsset := Some asset, screen := viewer\<rparr>"

text \<open>Lines 116-128: two awaits, \<open>isAvailableAsync\<close> and then \<open>shareAsync\<close>.\<close>

definition onShareSelected :: "app_state \<Rightarrow> app_state" where
  "onShareSelected s =
     (case selectedAsset s of None \<Rightarrow> s | Some a \<Rightarrow> await (IsAvailable a) s)"

definition onShareSelected_resume :: "Asset \<Rightarrow> bool option \<Rightarrow> app_state \<Rightarrow> app_state" where
  "onShareSelected_resume a r s =
     (case r of
        None \<Rightarrow> alert ''Share failed'' ''Unable to share this photo.'' s
      | Some available \<Rightarrow>
          if \<not> available
          then alert ''Unavailable'' ''Sharing is not available on this platform.'' s
          else await (ShareAsync a) s)"

definition onShareSelected_shared :: "unit option \<Rightarrow> app_state \<Rightarrow> app_state" where
  "onShareSelected_shared r s =
     (case r of
        None \<Rightarrow> alert ''Share failed'' ''Unable to share this photo.'' s
      | Some _ \<Rightarrow> s)"

text \<open>Lines 130-140. The identifier compared in the filter is the one of the asset
  that was selected when the handler was called.\<close>

definition onDeleteSelected :: "app_state \<Rightarrow> app_state" where
  "onDeleteSelected s =
     (case selectedAsset s of None \<Rightarrow> s | Some a \<Rightarrow> await (DeleteAssets a) s)"

definition onDeleteSelected_resume :: "Asset \<Rightarrow> unit option \<Rightarrow> app_state \<Rightarrow> app_state" where
  "onDeleteSelected_resume a r s =
     (case r of
        None \<Rightarrow> alert ''Delete failed'' ''Unable to delete this photo.'' s
      | Some _ \<Rightarrow>
          s\<lparr>assets := filter (\<lambda>x. id_asset x \<noteq> id_asset a) (assets s),
            selectedAsset := None,
            screen := gallery\<rparr>)"

text \<open>The viewer's Back button (lines 234-237), the camera screen's \<open>onClose\<close>
  (line 222) and its \<open>onShotSaved\<close> (lines 223-226).\<close>

definition onBack :: "app_state \<Rightarrow> app_state" where
  "onBack s = s\<lparr>selectedAsset := None, screen := gallery\<rparr>"

definition onClose :: "app_state \<Rightarrow> app_state" where
  "onClose s = s\<lparr>screen := gallery\<rparr>"

definition onShotSaved :: "app_state \<Rightarrow> app_state" where
  "onShotSaved s = refreshAssets True s"

definition onShotSaved_resume :: "bool \<Rightarrow> app_state \<Rightarrow> app_state" where
  "onShotSaved_resume fromShot s = (if fromShot then s\<lparr>screen := gallery\<rparr> else s)"

text \<open>The two effects of lines 33-43 and 90-94: the media permission is stored and,
  when it is granted, the first page is requested.\<close>

definition onMediaPermission :: "bool \<Rightarrow> app_state \<Rightarrow> app_state" where
  "onMediaPermission g s =
     (let s' = s\<lparr>hasMediaPermission := Some g\<rparr>
      in if g then loadInitialAssets False s' else s')"

subsection \<open>Events\<close>

text \<open>
  \<open>resume\<close> gives the rest of the handler that waits for a call, for an answer of the
  type that call returns; \<open>Rejected\<close> answers any call. An answer of another type is
  not an event of the program.
\<close>

fun resume :: "pending \<Rightarrow> response \<Rightarrow> (app_state \<Rightarrow> app_state) option" where
  "resume (GetAssetsInitial fromShot) (Page p) =
     Some (\<lambda>s. onShotSaved_resume fromShot (loadInitialAssets_resume (Some p) s))"
| "resume (GetAssetsInitial fromShot) Rejected =
     Some (\<lambda>s. onShotSaved_resume fromShot (loadInitialAssets_resume None s))"
| "resume (GetAssetsMore after) (Page p) = Some (loadMoreAssets_resume (Some p))"
| "resume (GetAssetsMore after) Rejected = Some (loadMoreAssets_resume None)"
| "resume RequestCameraPermission (Permission res) = Some (openCamera_resume (Some res))"
| "resume RequestCameraPermission Rejected = Some (openCamera_resume None)"
| "resume (IsAvailable a) (Available b) = Some (onShareSelected_resume a (Some b))"
| "resume (IsAvailable a) Rejected = Some (onShareSelected_resume a None)"
| "resume (ShareAsync a) Done = Some (onShareSelected_shared (Some ()))"
| "resume (ShareAsync a) Rejected = Some (onShareSelected_shared None)"
| "resume (DeleteAssets a) Done = Some (onDeleteSelected_resume a (Some ()))"
| "resume (DeleteAssets a) Rejected = Some (onDeleteSelected_resume a None)"
| "resume _ _ = None"

text \<open>The list without its entry of index \<open>i\<close>.\<close>

definition remove_at :: "nat \<Rightarrow> 'a list \<Rightarrow> 'a list" where
  "remove_at i xs = take i xs @ drop (Suc i) xs"

definition settle :: "nat \<Rightarrow> response \<Rightarrow> app_state \<Rightarrow> app_state" where
  "settle i r s =
     (if i < length (pending s)
      then (case resume (pending s ! i) r of
              None \<Rightarrow> s
            | Some k \<Rightarrow> k (s\<lparr>pending := remove_at i (pending s)\<rparr>))
      else s)"

datatype event =
    MediaPermission bool
  | EndReached
  | Refresh
  | OpenCamera
  | SelectAsset Asset
  | Back
  | Share
  | Delete
  | CloseCamera
  | ShotSaved
  | CameraPermissionHook "PermissionResponse option"
  | Settle nat response

text \<open>
  One event: a press or callback of the rendered tree, a change of the value the camera
  permission hook returns, or the platform settling the pending call of some index.
  Every handler may be called in every state; the rendered tree offers fewer.
\<close>

fun step :: "string \<Rightarrow> event \<Rightarrow> app_state \<Rightarrow> app_state" where
  "step os (MediaPermission g) s = onMediaPermission g s"
| "step os EndReached s = loadMoreAssets s"
| "step os Refresh s = refreshAssets False s"
| "step os OpenCamera s = openCamera os s"
| "step os (SelectAsset a) s = onSelectAsset a s"
| "step os Back s = onBack s"
| "step os Share s = onShareSelected s"
| "step os Delete s = onDeleteSelected s"
| "step os CloseCamera s = onClose s"
| "step os ShotSaved s = onShotSaved s"
| "step os (CameraPermissionHook p) s = s\<lparr>cameraPermission := p\<rparr>"
| "step os (Settle i r) s = settle i r s"

definition run :: "string \<Rightarrow> event list \<Rightarrow> app_state \<Rightarrow> app_state" where
  "run os evs s = fold (step os) evs s"

text \<open>What the component returns (lines 142-261), as far as the screens go.\<close>

datatype view =
    CheckingPermissions
  | PermissionNeeded
  | GalleryView
  | CameraView
  | ViewerView Asset
  | Blank

definition render :: "app_state \<Rightarrow> view" where
  "render s =
     (case hasMediaPermission s of
        None \<Rightarrow> CheckingPermissions
      | Some False \<Rightarrow> PermissionNeeded
      | Some True \<Rightarrow>
          (case screen s of
             gallery \<Rightarrow> GalleryView
           | camera \<Rightarrow> CameraView
           | viewer \<Rightarrow> (case selectedAsset s of Some a \<Rightarrow> ViewerView a | None \<Rightarrow> Blank)))"

subsection \<open>Committed states\<close>

text \<open>
  React renders a committed state. Setters called from a press handler are committed
  together on every root. Setters called after an \<open>await\<close> are committed together on a
  concurrent root and one by one, in the order of the calls, on a legacy root.

  \<open>commits fs s\<close> are the states after each of the calls \<open>fs\<close> in turn. The
  \<open>_setters\<close> lists give, for the part of a handler after its \<open>await\<close>, the setter calls
  and notices in the order of the source; applied in turn they give \<open>f_resume\<close>.
\<close>

datatype root = Legacy | Concurrent

fun commits :: "('s \<Rightarrow> 's) list \<Rightarrow> 's \<Rightarrow> 's list" where
  "commits [] s = []"
| "commits (f # fs) s = f s # commits fs (f s)"

text \<open>Lines 54-60.\<close>

definition loadInitialAssets_setters :: "PagedInfo option \<Rightarrow> (app_state \<Rightarrow> app_state) list" where
  "loadInitialAssets_setters r =
     (case r of
        Some result \<Rightarrow>
          [\<lambda>s. s\<lparr>assets := result_assets result\<rparr>,
           \<lambda>s. s\<lparr>endCursor := result_endCursor result\<rparr>,
           \<lambda>s. s\<lparr>hasNextPage := result_hasNextPage result\<rparr>]
      | None \<Rightarrow> [alert ''Error'' ''Failed to load photos.''])
     @ [\<lambda>s. s\<lparr>isLoadingAssets := False\<rparr>]"

text \<open>Lines 74-80.\<close>

definition loadMoreAssets_setters :: "PagedInfo option \<Rightarrow> (app_state \<Rightarrow> app_state) list" where
  "loadMoreAssets_setters r =
     (case r of
        Some result \<Rightarrow>
          [\<lambda>s. s\<lparr>assets := assets s @ result_assets result\<rparr>,
           \<lambda>s. s\<lparr>endCursor := result_endCursor result\<rparr>,
           \<lambda>s. s\<lparr>hasNextPage := result_hasNextPage result\<rparr>]
      | None \<Rightarrow> [alert ''Error'' ''Failed to load more photos.''])
     @ [\<lambda>s. s\<lparr>isLoadingAssets := False\<rparr>]"

text \<open>Lines 103-108.\<close>

definition openCamera_setters ::
  "PermissionResponse option \<Rightarrow> (app_state \<Rightarrow> app_state) list" where
  "openCamera_setters r =
     (case r of
        None \<Rightarrow> [\<lambda>s. s\<lparr>unhandledRejections := Suc (unhandledRejections s)\<rparr>]
      | Some res \<Rightarrow>
          if \<not> granted res
          then [alert ''Permission required'' ''Camera access is needed to take photos.'']
          else [\<lambda>s. s\<lparr>screen := camera\<rparr>])"

text \<open>Lines 120-127: no setter, only notices and the second call.\<close>

definition onShareSelected_setters ::
  "Asset \<Rightarrow> bool option \<Rightarrow> (app_state \<Rightarrow> app_state) list" where
  "onShareSelected_setters a r =
     (case r of
        None \<Rightarrow> [alert ''Share failed'' ''Unable to share this photo.'']
      | Some available \<Rightarrow>
          if \<not> available
          then [alert ''Unavailable'' ''Sharing is not available on this platform.'']
          else [await (ShareAsync a)])"

definition onShareSelected_shared_setters ::
  "unit option \<Rightarrow> (app_state \<Rightarrow> app_state) list" where
  "onShareSelected_shared_setters r =
     (case r of
        None \<Rightarrow> [alert ''Share failed'' ''Unable to share this photo.'']
      | Some _ \<Rightarrow> [])"

text \<open>Lines 134-138: the list, then the selection, then the screen.\<close>

definition onDeleteSelected_setters ::
  "Asset \<Rightarrow> unit option \<Rightarrow> (app_state \<Rightarrow> app_state) list" where
  "onDeleteSelected_setters a r =
     (case r of
        None \<Rightarrow> [alert ''Delete failed'' ''Unable to delete this photo.'']
      | Some _ \<Rightarrow>
          [\<lambda>s. s\<lparr>assets := filter (\<lambda>x. id_asset x \<noteq> id_asset a) (assets s)\<rparr>,
           \<lambda>s. s\<lparr>selectedAsset := None\<rparr>,
           \<lambda>s. s\<lparr>screen := gallery\<rparr>])"

text \<open>Line 225.\<close>

definition onShotSaved_setters :: "bool \<Rightarrow> (app_state \<Rightarrow> app_state) list" where
  "onShotSaved_setters fromShot = (if fromShot then [\<lambda>s. s\<lparr>screen := gallery\<rparr>] else [])"

fun resume_setters :: "pending \<Rightarrow> response \<Rightarrow> (app_state \<Rightarrow> app_state) list option" where
  "resume_setters (GetAssetsInitial fromShot) (Page p) =
     Some (loadInitialAssets_setters (Some p) @ onShotSaved_setters fromShot)"
| "resume_setters (GetAssetsInitial fromShot) Rejected =
     Some (loadInitialAssets_setters None @ onShotSaved_setters fromShot)"
| "resume_setters (GetAssetsMore after) (Page p) = Some (loadMoreAssets_setters (Some p))"
| "resume_setters (GetAssetsMore after) Rejected = Some (loadMoreAssets_setters None)"
| "resume_setters RequestCameraPermission (Permission res) = Some (openCamera_setters (Some res))"
| "resume_setters RequestCameraPermission Rejected = Some (openCamera_setters None)"
| "resume_setters (IsAvailable a) (Available b) = Some (onShareSelected_setters a (Some b))"
| "resume_setters (IsAvailable a) Rejected = Some (onShareSelected_setters a None)"
| "resume_setters (ShareAsync a) Done = Some (onShareSelected_shared_setters (Some ()))"
| "resume_setters (ShareAsync a) Rejected = Some (onShareSelected_shared_setters None)"
| "resume_setters (DeleteAssets a) Done = Some (onDeleteSelected_setters a (Some ()))"
| "resume_setters (DeleteAssets a) Rejected = Some (onDeleteSelected_setters a None)"
| "resume_setters _ _ = None"

text \<open>
  A committed state is observed at rest, after an event, or on the way: within a handler
  that runs after an \<open>await\<close> of the camera screen or of the first effect, or within the
  rest of a handler of \<open>App\<close> that the answer to a pending call resumes.
\<close>

datatype moment = AtRest | InHandler | InContinuation pending response

text \<open>
  The states committed during an event, before the state the event ends in. On a
  concurrent root there is none. On a legacy root they are the states after each setter
  but the last, for the three kinds of event that run after an \<open>await\<close>: an answer to a
  pending call, \<open>onShotSaved\<close> (called by \<open>onTakeShot\<close> once the photo is saved, lines
  318-323), and the storing of the media permission, which the second effect follows.
\<close>

fun during :: "root \<Rightarrow> string \<Rightarrow> event \<Rightarrow> app_state \<Rightarrow> (moment \<times> app_state) list" where
  "during Concurrent os e s = []"
| "during Legacy os (Settle i r) s =
     (if i < length (pending s)
      then (case resume_setters (pending s ! i) r of
              None \<Rightarrow> []
            | Some fs \<Rightarrow>
                map (Pair (InContinuation (pending s ! i) r))
                  (butlast (commits fs (s\<lparr>pending := remove_at i (pending s)\<rparr>))))
      else [])"
| "during Legacy os ShotSaved s =
     map (Pair InHandler)
       (butlast (commits [\<lambda>s. s\<lparr>endCursor := None\<rparr>, \<lambda>s. s\<lparr>hasNextPage := True\<rparr>,
                          loadInitialAssets True] s))"
| "during Legacy os (MediaPermission g) s =
     map (Pair InHandler)
       (butlast (commits ([\<lambda>s. s\<lparr>hasMediaPermission := Some g\<rparr>]
                          @ (if g then [loadInitialAssets False] else [])) s))"
| "during Legacy os e s = []"

fun observed ::
  "root \<Rightarrow> string \<Rightarrow> event list \<Rightarrow> app_state \<Rightarrow> (moment \<times> app_state) list" where
  "observed root os [] s = [(AtRest, s)]"
| "observed root os (e # evs) s =
     (AtRest, s) # during root os e s @ observed root os evs (step os e s)"

subsection \<open>Observations\<close>

text \<open>The part of the state that the pagination and navigation requirements speak of:
  asset list, cursor, has-more, selection and screen.\<close>

definition core ::
  "app_state \<Rightarrow> Asset list \<times> string option \<times> bool \<times> Asset option \<times> ScreenName" where
  "core s = (assets s, endCursor s, hasNextPage s, selectedAsset s, screen s)"

definition viewer_has_selection :: "app_state \<Rightarrow> bool" where
  "viewer_has_selection s = (screen s = viewer \<longrightarrow> selectedAsset s \<noteq> None)"

text \<open>Test data: a photo named by its identifier, and a page of such photos.\<close>

definition photo :: "string \<Rightarrow> Asset" where
  "photo i = \<lparr>id_asset = i, uri = ''file:///photos/'' @ i\<rparr>"

definition page :: "string list \<Rightarrow> string \<Rightarrow> bool \<Rightarrow> response" where
  "page ids cursor hasMore =
     Page \<lparr>result_assets = map photo ids, result_endCursor = Some cursor,
           result_hasNextPage = hasMore\<rparr>"



section \<open>Properties\<close>

subsection \<open>Auxiliary facts\<close>

lemmas handler_defs =
  alert_def await_def loadInitialAssets_def loadInitialAssets_resume_def
  loadMoreAssets_def loadMoreAssets_resume_def refreshAssets_def
  isGranted_def openCamera_def openCamera_resume_def onSelectAsset_def
  onShareSelected_def onShareSelected_resume_def onShareSelected_shared_def
  onDeleteSelected_def onDeleteSelected_resume_def onBack_def onClose_def
  onShotSaved_def onShotSaved_resume_def onMediaPermission_def

lemmas data_defs = init_def photo_def page_def remove_at_def

lemma init_fields [simp]:
  "hasMediaPermission init = None" "assets init = []" "endCursor init = None"
  "hasNextPage init = True" "isLoadingAssets init = False" "screen init = gallery"
  "selectedAsset init = None" "cameraPermission init = None" "alerts init = []"
  "unhandledRejections init = 0" "pending init = []"
  by (simp_all add: init_def)

lemma settle_at:
  assumes "i < length (pending s)" and "resume (pending s ! i) r = Some k"
  shows "settle i r s = k (s\<lparr>pending := remove_at i (pending s)\<rparr>)"
  using assms by (simp add: settle_def)

lemma settle_initial_page:
  assumes "i < length (pending s)" and "pending s ! i = GetAssetsInitial fromShot"
  shows "assets (settle i (Page p) s) = result_assets p"
    and "endCursor (settle i (Page p) s) = result_endCursor p"
    and "hasNextPage (settle i (Page p) s) = result_hasNextPage p"
    and "isLoadingAssets (settle i (Page p) s) = False"
  using assms
  by (simp_all add: settle_at loadInitialAssets_resume_def onShotSaved_resume_def)

lemma settle_more_page:
  assumes "i < length (pending s)" and "pending s ! i = GetAssetsMore after"
  shows "assets (settle i (Page p) s) = assets s @ result_assets p"
    and "endCursor (settle i (Page p) s) = result_endCursor p"
    and "hasNextPage (settle i (Page p) s) = result_hasNextPage p"
    and "isLoadingAssets (settle i (Page p) s) = False"
  using assms by (simp_all add: settle_at loadMoreAssets_resume_def)

lemma loadMoreAssets_guard:
  "\<not> hasNextPage s \<or> isLoadingAssets s \<Longrightarrow> loadMoreAssets s = s"
  by (simp add: loadMoreAssets_def)

lemma loadMoreAssets_repeat:
  "\<not> hasNextPage s \<Longrightarrow> run os (replicate n EndReached) s = s"
  by (induction n) (simp_all add: run_def loadMoreAssets_guard)

text \<open>Removing by a predicate that exactly one element satisfies removes that element
  and nothing else.\<close>

lemma filter_unique:
  "length (filter P xs) = 1 \<Longrightarrow>
     \<exists>ys x zs. xs = ys @ x # zs \<and> P x \<and> filter (\<lambda>y. \<not> P y) xs = ys @ zs"
proof (induction xs)
  case Nil
  then show ?case by simp
next
  case (Cons a xs)
  show ?case
  proof (cases "P a")
    case True
    with Cons.prems have "filter P xs = []" by simp
    then have "filter (\<lambda>y. \<not> P y) xs = xs"
      by (simp add: filter_empty_conv)
    with True have "a # xs = [] @ a # xs \<and> P a \<and> filter (\<lambda>y. \<not> P y) (a # xs) = [] @ xs"
      by simp
    then show ?thesis by blast
  next
    case False
    with Cons.prems have "length (filter P xs) = 1" by simp
    from Cons.IH [OF this] obtain ys x zs
      where "xs = ys @ x # zs" "P x" "filter (\<lambda>y. \<not> P y) xs = ys @ zs"
      by blast
    with False
    have "a # xs = (a # ys) @ x # zs \<and> P x \<and> filter (\<lambda>y. \<not> P y) (a # xs) = (a # ys) @ zs"
      by simp
    then show ?thesis by blast
  qed
qed

lemma length_filter_unique:
  "length (filter P xs) = 1 \<Longrightarrow> Suc (length (filter (\<lambda>y. \<not> P y) xs)) = length xs"
  using sum_length_filter_compl [of P xs] by simp

text \<open>The selection invariant is kept by every event.\<close>

lemma resume_keeps_selection:
  "resume call r = Some k \<Longrightarrow> viewer_has_selection s \<Longrightarrow> viewer_has_selection (k s)"
  by (cases "(call, r)" rule: resume.cases)
     (auto simp: viewer_has_selection_def handler_defs split: option.splits if_splits)

lemma settle_keeps_selection:
  assumes "viewer_has_selection s"
  shows "viewer_has_selection (settle i r s)"
proof (cases "i < length (pending s)")
  case False
  then show ?thesis using assms by (simp add: settle_def)
next
  case True
  show ?thesis
  proof (cases "resume (pending s ! i) r")
    case None
    then show ?thesis using assms True by (simp add: settle_def)
  next
    case (Some k)
    have "viewer_has_selection (s\<lparr>pending := remove_at i (pending s)\<rparr>)"
      using assms by (simp add: viewer_has_selection_def)
    then have "viewer_has_selection (k (s\<lparr>pending := remove_at i (pending s)\<rparr>))"
      by (rule resume_keeps_selection [OF Some])
    then show ?thesis using True Some by (simp add: settle_at)
  qed
qed

lemma step_keeps_selection:
  "viewer_has_selection s \<Longrightarrow> viewer_has_selection (step os e s)"
  by (cases e)
     (auto simp: settle_keeps_selection,
      auto simp: viewer_has_selection_def handler_defs Let_def split: option.splits)

lemma run_keeps_selection:
  "viewer_has_selection s \<Longrightarrow> viewer_has_selection (run os evs s)"
  unfolding run_def by (induction evs arbitrary: s) (simp_all add: step_keeps_selection)

lemma render_viewer:
  "render s = ViewerView a \<Longrightarrow> screen s = viewer \<and> selectedAsset s = Some a"
  by (auto simp: render_def split: option.splits bool.splits ScreenName.splits)

text \<open>The setter lists, applied in turn, are the rest of the handler.\<close>

lemmas setters_defs =
  loadInitialAssets_setters_def loadMoreAssets_setters_def openCamera_setters_def
  onShareSelected_setters_def onShareSelected_shared_setters_def
  onDeleteSelected_setters_def onShotSaved_setters_def

lemma resume_setters_none: "resume_setters call r = None \<longleftrightarrow> resume call r = None"
  by (cases "(call, r)" rule: resume.cases) simp_all

lemma resume_setters_fold:
  "resume_setters call r = Some fs \<Longrightarrow> resume call r = Some k \<Longrightarrow> fold (\<lambda>f. f) fs s = k s"
  by (cases "(call, r)" rule: resume.cases)
     (auto simp: handler_defs setters_defs split: option.splits)

lemma last_commits: "last (s # commits fs s) = fold (\<lambda>f. f) fs s"
  by (induction fs arbitrary: s) simp_all

text \<open>The committed states and the selection invariant.\<close>

lemma observed_end: "(AtRest, run os evs s) \<in> set (observed root os evs s)"
  by (induction evs arbitrary: s) (simp_all add: run_def)

lemma observed_concurrent:
  "viewer_has_selection s \<Longrightarrow>
     \<forall>x \<in> set (observed Concurrent os evs s). viewer_has_selection (snd x)"
proof (induction evs arbitrary: s)
  case Nil
  then show ?case by simp
next
  case (Cons e evs)
  have "viewer_has_selection (step os e s)"
    using Cons.prems by (rule step_keeps_selection)
  from Cons.IH [OF this] Cons.prems show ?case by simp
qed

lemma setters_keep_selection:
  assumes "resume_setters call r = Some fs" and "viewer_has_selection s"
  shows "\<forall>t \<in> set (butlast (commits fs s)).
           viewer_has_selection t \<or> (\<exists>a. call = DeleteAssets a \<and> r = Done)"
  using assms
  by (cases "(call, r)" rule: resume_setters.cases)
     (auto simp: viewer_has_selection_def setters_defs alert_def await_def
           split: option.splits if_splits)

lemma during_legacy:
  assumes "viewer_has_selection s"
  shows "\<forall>x \<in> set (during Legacy os e s).
           viewer_has_selection (snd x) \<or> (\<exists>a. fst x = InContinuation (DeleteAssets a) Done)"
proof (cases e)
  case (Settle i r)
  show ?thesis
  proof (cases "i < length (pending s)")
    case False
    with Settle show ?thesis by simp
  next
    case True
    show ?thesis
    proof (cases "resume_setters (pending s ! i) r")
      case None
      with Settle True show ?thesis by simp
    next
      case (Some fs)
      have "viewer_has_selection (s\<lparr>pending := remove_at i (pending s)\<rparr>)"
        using assms by (simp add: viewer_has_selection_def)
      from setters_keep_selection [OF Some this] Settle True Some
      show ?thesis by auto
    qed
  qed
next
  case (MediaPermission g)
  with assms show ?thesis
    by (auto simp: viewer_has_selection_def loadInitialAssets_def await_def)
next
  case ShotSaved
  with assms show ?thesis
    by (auto simp: viewer_has_selection_def loadInitialAssets_def await_def)
qed simp_all

lemma observed_legacy:
  "viewer_has_selection s \<Longrightarrow>
     \<forall>x \<in> set (observed Legacy os evs s).
        viewer_has_selection (snd x) \<or> (\<exists>a. fst x = InContinuation (DeleteAssets a) Done)"
proof (induction evs arbitrary: s)
  case Nil
  then show ?case by simp
next
  case (Cons e evs)
  have "viewer_has_selection (step os e s)"
    using Cons.prems by (rule step_keeps_selection)
  from Cons.IH [OF this] during_legacy [OF Cons.prems, of os e] Cons.prems
  show ?case by auto
qed

subsection \<open>States used as concrete inputs\<close>

lemma first_page_loaded:
  "run os [MediaPermission True, Settle 0 (page [''1'', ''2'', ''3''] ''c1'' b)] init =
     init\<lparr>hasMediaPermission := Some True,
          assets := map photo [''1'', ''2'', ''3''],
          endCursor := Some ''c1'', hasNextPage := b\<rparr>"
  by (simp add: run_def settle_def handler_defs data_defs)


lemma first_page_then_selected:
  "run os [MediaPermission True, Settle 0 (page [''1'', ''2'', ''3''] ''c1'' b),
           SelectAsset (photo ''3'')] init =
     init\<lparr>hasMediaPermission := Some True,
          assets := map photo [''1'', ''2'', ''3''],
          endCursor := Some ''c1'', hasNextPage := b,
          selectedAsset := Some (photo ''3''), screen := viewer\<rparr>"
  by (simp add: run_def settle_def handler_defs data_defs)

subsection \<open>Stale responses\<close>

text \<open>
  Claim C1, as the code has it. The state holds no generation token and a pending
  \<open>loadInitialAssets\<close> carries none: whenever the platform answers such a request with a
  page, whatever happened since the request was made, the asset list, the cursor and
  has-more become those of that page. So the answer applied last decides the state, and
  the late answer to a request made before a refresh replaces what the refresh produced.
\<close>

theorem initial_load_answer_always_applied:
  assumes "i < length (pending s)"
    and "pending s ! i = GetAssetsInitial fromShot"
  shows "assets (step os (Settle i (Page p)) s) = result_assets p
       \<and> endCursor (step os (Settle i (Page p)) s) = result_endCursor p
       \<and> hasNextPage (step os (Settle i (Page p)) s) = result_hasNextPage p"
  using settle_initial_page [OF assms] by simp

text \<open>
  Claim C1 as stated fails. The first page is requested when the media permission
  arrives; Refresh is pressed while that request is outstanding; the refresh is answered
  first, with photos 2 and 1; then the earlier request is answered, with photo 1 alone,
  and that answer replaces the refreshed list, cursor and has-more.
\<close>

theorem stale_initial_load_counterexample:
  "pending (run ''ios'' [MediaPermission True, Refresh] init)
     = [GetAssetsInitial False, GetAssetsInitial False]
   \<and> core (run ''ios'' [MediaPermission True, Refresh,
                         Settle (Suc 0) (page [''2'', ''1''] ''new'' False)] init)
     = ([photo ''2'', photo ''1''], Some ''new'', False, None, gallery)
   \<and> core (run ''ios'' [MediaPermission True, Refresh,
                         Settle (Suc 0) (page [''2'', ''1''] ''new'' False),
                         Settle 0 (page [''1''] ''old'' True)] init)
     = ([photo ''1''], Some ''old'', True, None, gallery)"
  by (simp add: run_def settle_def core_def handler_defs data_defs)

theorem initial_load_answer_always_applied_witness:
  "0 < length (pending (run ''ios'' [MediaPermission True, Refresh,
                         Settle (Suc 0) (page [''2'', ''1''] ''new'' False)] init))
   \<and> pending (run ''ios'' [MediaPermission True, Refresh,
                         Settle (Suc 0) (page [''2'', ''1''] ''new'' False)] init) ! 0
       = GetAssetsInitial False
   \<and> assets (step ''ios'' (Settle 0 (page [''1''] ''old'' True))
        (run ''ios'' [MediaPermission True, Refresh,
                      Settle (Suc 0) (page [''2'', ''1''] ''new'' False)] init))
       = [photo ''1'']"
proof -
  let ?s = "run ''ios'' [MediaPermission True, Refresh,
                         Settle (Suc 0) (page [''2'', ''1''] ''new'' False)] init"
  have p: "pending ?s = [GetAssetsInitial False]"
    by (simp add: run_def settle_def handler_defs data_defs)
  have h1: "0 < length (pending ?s)" and h2: "pending ?s ! 0 = GetAssetsInitial False"
    by (simp_all add: p)
  show ?thesis
    using h1 h2
      initial_load_answer_always_applied [OF h1 h2, of "''ios''"
        "\<lparr>result_assets = map photo [''1''], result_endCursor = Some ''old'',
          result_hasNextPage = True\<rparr>"]
    by (simp add: page_def)
qed

subsection \<open>Load more\<close>

text \<open>
  Claim C2, as the code has it. When has-more is false or the in-flight flag
  \<open>isLoadingAssets\<close> is set, \<open>loadMoreAssets\<close> returns the state it was given: no request
  is added to the pending calls and no field changes. Hence any number of calls made
  while has-more is false leaves the state as it was.
\<close>

theorem loadMore_is_noop:
  "(\<not> hasNextPage s \<or> isLoadingAssets s \<longrightarrow> step os EndReached s = s)
   \<and> (\<not> hasNextPage s \<longrightarrow> run os (replicate n EndReached) s = s)"
  by (simp add: loadMoreAssets_guard loadMoreAssets_repeat)

theorem loadMore_is_noop_witness:
  "\<not> hasNextPage (run ''ios'' [MediaPermission True,
        Settle 0 (page [''1'', ''2'', ''3''] ''c1'' False)] init)
   \<and> step ''ios'' EndReached (run ''ios'' [MediaPermission True,
        Settle 0 (page [''1'', ''2'', ''3''] ''c1'' False)] init)
     = run ''ios'' [MediaPermission True,
        Settle 0 (page [''1'', ''2'', ''3''] ''c1'' False)] init
   \<and> run ''ios'' (replicate 3 EndReached) (run ''ios'' [MediaPermission True,
        Settle 0 (page [''1'', ''2'', ''3''] ''c1'' False)] init)
     = run ''ios'' [MediaPermission True,
        Settle 0 (page [''1'', ''2'', ''3''] ''c1'' False)] init"
proof -
  let ?s = "run ''ios'' [MediaPermission True,
        Settle 0 (page [''1'', ''2'', ''3''] ''c1'' False)] init"
  have h: "\<not> hasNextPage ?s"
    by (simp add: first_page_loaded)
  show ?thesis
    using h loadMore_is_noop [of ?s "''ios''" 3] by blast
qed

text \<open>
  Claim C2 as stated fails when a pagination request is in flight and the flag is not
  set. The flag is the one record of an outstanding load that the guard of
  \<open>loadMoreAssets\<close> reads, and every load clears it when it ends. The first load and a
  refresh overlap; the first answer clears the flag while the other request is still
  pending; has-more is true, and \<open>loadMoreAssets\<close> sets the flag and makes a request of
  its own.
\<close>

theorem loadMore_with_request_pending_counterexample:
  "pending (run ''ios'' [MediaPermission True, Refresh,
       Settle 0 (page [''1''] ''c1'' True)] init) = [GetAssetsInitial False]
   \<and> hasNextPage (run ''ios'' [MediaPermission True, Refresh,
       Settle 0 (page [''1''] ''c1'' True)] init) = True
   \<and> isLoadingAssets (run ''ios'' [MediaPermission True, Refresh,
       Settle 0 (page [''1''] ''c1'' True)] init) = False
   \<and> pending (run ''ios'' [MediaPermission True, Refresh,
       Settle 0 (page [''1''] ''c1'' True), EndReached] init)
     = [GetAssetsInitial False, GetAssetsMore (Some ''c1'')]
   \<and> isLoadingAssets (run ''ios'' [MediaPermission True, Refresh,
       Settle 0 (page [''1''] ''c1'' True), EndReached] init) = True"
  by (simp add: run_def settle_def handler_defs data_defs)

text \<open>
  Claim C3. When has-more is true and no load is flagged, \<open>loadMoreAssets\<close> requests the
  page after the stored cursor. When that request is answered with a page, the page's
  assets are appended, in their order, to the list as it is then, and the cursor and
  has-more become the page's. In the scenario of the specification the list grows from
  1, 2, 3 to 1, 2, 3, 4, 5, has-more becomes false, and one more call changes nothing.
\<close>

theorem loadMore_appends_page:
  "(hasNextPage s \<and> \<not> isLoadingAssets s \<longrightarrow>
      step os EndReached s =
        s\<lparr>isLoadingAssets := True, pending := pending s @ [GetAssetsMore (endCursor s)]\<rparr>)
   \<and> (i < length (pending s') \<and> pending s' ! i = GetAssetsMore after \<longrightarrow>
        assets (step os (Settle i (Page p)) s') = assets s' @ result_assets p
      \<and> endCursor (step os (Settle i (Page p)) s') = result_endCursor p
      \<and> hasNextPage (step os (Settle i (Page p)) s') = result_hasNextPage p)
   \<and> (let s1 = run os [MediaPermission True,
                        Settle 0 (page [''1'', ''2'', ''3''] ''c1'' True)] init;
           s2 = run os [EndReached, Settle 0 (page [''4'', ''5''] ''c2'' False)] s1
       in map id_asset (assets s1) = [''1'', ''2'', ''3'']
        \<and> map id_asset (assets s2) = [''1'', ''2'', ''3'', ''4'', ''5'']
        \<and> endCursor s2 = Some ''c2''
        \<and> hasNextPage s2 = False
        \<and> step os EndReached s2 = s2)"
proof -
  have call: "hasNextPage s \<and> \<not> isLoadingAssets s \<longrightarrow>
      step os EndReached s =
        s\<lparr>isLoadingAssets := True, pending := pending s @ [GetAssetsMore (endCursor s)]\<rparr>"
    by (simp add: loadMoreAssets_def await_def)
  have answer: "i < length (pending s') \<and> pending s' ! i = GetAssetsMore after \<longrightarrow>
        assets (step os (Settle i (Page p)) s') = assets s' @ result_assets p
      \<and> endCursor (step os (Settle i (Page p)) s') = result_endCursor p
      \<and> hasNextPage (step os (Settle i (Page p)) s') = result_hasNextPage p"
    by (simp add: settle_more_page)
  let ?s1 = "run os [MediaPermission True,
                     Settle 0 (page [''1'', ''2'', ''3''] ''c1'' True)] init"
  let ?s2 = "run os [EndReached, Settle 0 (page [''4'', ''5''] ''c2'' False)] ?s1"
  have s2: "?s2 = init\<lparr>hasMediaPermission := Some True,
                       assets := map photo [''1'', ''2'', ''3'', ''4'', ''5''],
                       endCursor := Some ''c2'', hasNextPage := False\<rparr>"
    unfolding first_page_loaded
    by (simp add: run_def settle_def handler_defs data_defs)
  have "map id_asset (assets ?s1) = [''1'', ''2'', ''3'']"
    by (simp add: first_page_loaded photo_def)
  moreover have "map id_asset (assets ?s2) = [''1'', ''2'', ''3'', ''4'', ''5'']"
    by (simp add: s2 photo_def)
  moreover have "endCursor ?s2 = Some ''c2''" and "hasNextPage ?s2 = False"
    by (simp_all add: s2)
  moreover have "step os EndReached ?s2 = ?s2"
    by (simp add: s2 loadMoreAssets_def)
  ultimately show ?thesis
    using call answer by (simp add: Let_def)
qed

theorem loadMore_appends_page_witness:
  "hasNextPage (run ''ios'' [MediaPermission True,
        Settle 0 (page [''1'', ''2'', ''3''] ''c1'' True)] init)
   \<and> \<not> isLoadingAssets (run ''ios'' [MediaPermission True,
        Settle 0 (page [''1'', ''2'', ''3''] ''c1'' True)] init)
   \<and> pending (run ''ios'' [MediaPermission True,
        Settle 0 (page [''1'', ''2'', ''3''] ''c1'' True), EndReached] init)
       = [GetAssetsMore (Some ''c1'')]
   \<and> assets (run ''ios'' [MediaPermission True,
        Settle 0 (page [''1'', ''2'', ''3''] ''c1'' True), EndReached,
        Settle 0 (page [''4'', ''5''] ''c2'' False)] init)
       = map photo [''1'', ''2'', ''3'', ''4'', ''5'']"
proof -
  let ?s = "run ''ios'' [MediaPermission True,
        Settle 0 (page [''1'', ''2'', ''3''] ''c1'' True)] init"
  let ?p = "\<lparr>result_assets = map photo [''4'', ''5''], result_endCursor = Some ''c2'',
             result_hasNextPage = False\<rparr>"
  have h: "hasNextPage ?s \<and> \<not> isLoadingAssets ?s"
    by (simp add: first_page_loaded)
  have a: "step ''ios'' EndReached ?s =
      ?s\<lparr>isLoadingAssets := True, pending := pending ?s @ [GetAssetsMore (endCursor ?s)]\<rparr>"
    using h loadMore_appends_page [of ?s "''ios''"] by blast
  let ?s' = "step ''ios'' EndReached ?s"
  have p: "pending ?s' = [GetAssetsMore (Some ''c1'')]"
    by (subst a) (simp add: first_page_loaded)
  have b: "assets (step ''ios'' (Settle 0 (Page ?p)) ?s') = assets ?s' @ result_assets ?p"
    using p loadMore_appends_page [of _ "''ios''" 0 ?s' "Some ''c1''" ?p] by simp
  have "assets ?s' = map photo [''1'', ''2'', ''3'']"
    by (subst a) (simp add: first_page_loaded)
  with b have c: "assets (step ''ios'' (Settle 0 (Page ?p)) ?s')
      = map photo [''1'', ''2'', ''3'', ''4'', ''5'']"
    by simp
  have r1: "run ''ios'' [MediaPermission True,
        Settle 0 (page [''1'', ''2'', ''3''] ''c1'' True), EndReached] init = ?s'"
    by (simp add: run_def)
  have r2: "run ''ios'' [MediaPermission True,
        Settle 0 (page [''1'', ''2'', ''3''] ''c1'' True), EndReached,
        Settle 0 (page [''4'', ''5''] ''c2'' False)] init
      = step ''ios'' (Settle 0 (Page ?p)) ?s'"
    by (simp add: run_def page_def)
  show ?thesis
    unfolding r1 r2 using h p c by blast
qed


subsection \<open>Refresh\<close>

text \<open>
  Claim C4. From every state, \<open>refreshAssets\<close> sets the cursor to absent and has-more to
  true and then does what \<open>loadInitialAssets\<close> does: it requests the first page. When
  that request is answered with a page, at once or after other events, the asset list is
  exactly that page's list, whatever the list was before, and the cursor and has-more are
  the page's.
\<close>

theorem refresh_replaces_list:
  "step os Refresh s = loadInitialAssets False (s\<lparr>endCursor := None, hasNextPage := True\<rparr>)
   \<and> endCursor (step os Refresh s) = None
   \<and> hasNextPage (step os Refresh s) = True
   \<and> pending (step os Refresh s) = pending s @ [GetAssetsInitial False]
   \<and> assets (step os (Settle (length (pending s)) (Page p)) (step os Refresh s))
       = result_assets p
   \<and> endCursor (step os (Settle (length (pending s)) (Page p)) (step os Refresh s))
       = result_endCursor p
   \<and> hasNextPage (step os (Settle (length (pending s)) (Page p)) (step os Refresh s))
       = result_hasNextPage p
   \<and> (i < length (pending s') \<and> pending s' ! i = GetAssetsInitial fromShot \<longrightarrow>
        assets (step os (Settle i (Page p)) s') = result_assets p
      \<and> endCursor (step os (Settle i (Page p)) s') = result_endCursor p
      \<and> hasNextPage (step os (Settle i (Page p)) s') = result_hasNextPage p)"
proof -
  let ?s' = "step os Refresh s"
  have call: "?s' = loadInitialAssets False (s\<lparr>endCursor := None, hasNextPage := True\<rparr>)"
    by (simp add: refreshAssets_def)
  have reset: "endCursor ?s' = None" "hasNextPage ?s' = True"
    and p: "pending ?s' = pending s @ [GetAssetsInitial False]"
    by (simp_all add: refreshAssets_def loadInitialAssets_def await_def)
  have i: "length (pending s) < length (pending ?s')"
    and k: "pending ?s' ! length (pending s) = GetAssetsInitial False"
    unfolding p by simp_all
  have "assets (settle (length (pending s)) (Page p) ?s') = result_assets p"
    and "endCursor (settle (length (pending s)) (Page p) ?s') = result_endCursor p"
    and "hasNextPage (settle (length (pending s)) (Page p) ?s') = result_hasNextPage p"
    by (rule settle_initial_page [OF i k])+
  moreover
  have "i < length (pending s') \<and> pending s' ! i = GetAssetsInitial fromShot \<longrightarrow>
        assets (step os (Settle i (Page p)) s') = result_assets p
      \<and> endCursor (step os (Settle i (Page p)) s') = result_endCursor p
      \<and> hasNextPage (step os (Settle i (Page p)) s') = result_hasNextPage p"
    by (simp add: settle_initial_page)
  ultimately show ?thesis
    using call reset p by simp
qed

theorem refresh_replaces_list_witness:
  "assets (run ''ios'' [MediaPermission True,
        Settle 0 (page [''1'', ''2'', ''3''] ''c1'' True)] init)
     = map photo [''1'', ''2'', ''3'']
   \<and> assets (run ''ios'' [Refresh, Settle 0 (page [''9'', ''1''] ''d1'' False)]
        (run ''ios'' [MediaPermission True,
           Settle 0 (page [''1'', ''2'', ''3''] ''c1'' True)] init))
     = map photo [''9'', ''1'']
   \<and> pending (run ''ios'' [MediaPermission True,
           Settle 0 (page [''1'', ''2'', ''3''] ''c1'' True),
           SelectAsset (photo ''3''), Refresh, Back] init) ! 0 = GetAssetsInitial False
   \<and> assets (step ''ios'' (Settle 0 (page [''9'', ''1''] ''d1'' False))
        (run ''ios'' [MediaPermission True,
           Settle 0 (page [''1'', ''2'', ''3''] ''c1'' True),
           SelectAsset (photo ''3''), Refresh, Back] init))
     = map photo [''9'', ''1'']"
proof -
  let ?s = "run ''ios'' [MediaPermission True,
        Settle 0 (page [''1'', ''2'', ''3''] ''c1'' True)] init"
  let ?p = "\<lparr>result_assets = map photo [''9'', ''1''], result_endCursor = Some ''d1'',
             result_hasNextPage = False\<rparr>"
  have n: "length (pending ?s) = 0" and a: "assets ?s = map photo [''1'', ''2'', ''3'']"
    by (simp_all add: first_page_loaded)
  have "assets (step ''ios'' (Settle (length (pending ?s)) (Page ?p)) (step ''ios'' Refresh ?s))
      = result_assets ?p"
    using refresh_replaces_list [of "''ios''" ?s ?p] by blast
  then have "assets (run ''ios'' [Refresh, Settle 0 (page [''9'', ''1''] ''d1'' False)] ?s)
      = map photo [''9'', ''1'']"
    unfolding n by (simp add: run_def page_def)
  note b = this
  let ?t = "run ''ios'' [MediaPermission True,
           Settle 0 (page [''1'', ''2'', ''3''] ''c1'' True),
           SelectAsset (photo ''3''), Refresh, Back] init"
  have t: "?t = step ''ios'' Back (step ''ios'' Refresh (run ''ios'' [MediaPermission True,
           Settle 0 (page [''1'', ''2'', ''3''] ''c1'' True),
           SelectAsset (photo ''3'')] init))"
    by (simp add: run_def)
  have q: "pending ?t = [GetAssetsInitial False]"
    unfolding t first_page_then_selected
    by (simp add: onBack_def refreshAssets_def loadInitialAssets_def await_def)
  have h: "0 < length (pending ?t) \<and> pending ?t ! 0 = GetAssetsInitial False"
    unfolding q by simp
  have "assets (step ''ios'' (Settle 0 (Page ?p)) ?t) = result_assets ?p"
    using h refresh_replaces_list [of "''ios''" _ ?p 0 ?t False] by blast
  then have c: "assets (step ''ios'' (Settle 0 (page [''9'', ''1''] ''d1'' False)) ?t)
      = map photo [''9'', ''1'']"
    by (simp add: page_def)
  from a b h c show ?thesis by blast
qed

subsection \<open>Delete and share\<close>

text \<open>
  Claim C5. \<open>onDeleteSelected\<close> asks the platform to delete the selected asset. When the
  platform reports success and the identifier of that asset occurs exactly once in the
  list as it is then, exactly one entry leaves the list, the one with that identifier,
  the others keeping their order; the selection becomes null and the screen the gallery.
\<close>

theorem delete_removes_exactly_one:
  assumes "i < length (pending s)"
    and "pending s ! i = DeleteAssets a"
    and "length (filter (\<lambda>x. id_asset x = id_asset a) (assets s)) = 1"
  shows "Suc (length (assets (step os (Settle i Done) s))) = length (assets s)
       \<and> (\<exists>ys x zs. assets s = ys @ x # zs \<and> id_asset x = id_asset a
             \<and> assets (step os (Settle i Done) s) = ys @ zs)
       \<and> selectedAsset (step os (Settle i Done) s) = None
       \<and> screen (step os (Settle i Done) s) = gallery
       \<and> (selectedAsset s0 = Some a \<longrightarrow>
            step os Delete s0 = s0\<lparr>pending := pending s0 @ [DeleteAssets a]\<rparr>)"
proof -
  have r: "resume (pending s ! i) Done = Some (onDeleteSelected_resume a (Some ()))"
    using assms(2) by simp
  have t: "step os (Settle i Done) s =
      onDeleteSelected_resume a (Some ()) (s\<lparr>pending := remove_at i (pending s)\<rparr>)"
    using settle_at [OF assms(1) r] by simp
  have l: "assets (step os (Settle i Done) s)
      = filter (\<lambda>x. \<not> id_asset x = id_asset a) (assets s)"
    and "selectedAsset (step os (Settle i Done) s) = None"
    and "screen (step os (Settle i Done) s) = gallery"
    unfolding t by (simp_all add: onDeleteSelected_resume_def)
  moreover have "Suc (length (assets (step os (Settle i Done) s))) = length (assets s)"
    unfolding l by (rule length_filter_unique [OF assms(3)])
  moreover have "\<exists>ys x zs. assets s = ys @ x # zs \<and> id_asset x = id_asset a
             \<and> assets (step os (Settle i Done) s) = ys @ zs"
    unfolding l by (rule filter_unique [OF assms(3)])
  moreover have "selectedAsset s0 = Some a \<longrightarrow>
            step os Delete s0 = s0\<lparr>pending := pending s0 @ [DeleteAssets a]\<rparr>"
    by (simp add: onDeleteSelected_def await_def)
  ultimately show ?thesis by blast
qed

theorem delete_removes_exactly_one_witness:
  "0 < length (pending (run ''ios'' [MediaPermission True,
         Settle 0 (page [''1'', ''2'', ''3''] ''c1'' False),
         SelectAsset (photo ''3''), Delete] init))
   \<and> pending (run ''ios'' [MediaPermission True,
         Settle 0 (page [''1'', ''2'', ''3''] ''c1'' False),
         SelectAsset (photo ''3''), Delete] init) ! 0 = DeleteAssets (photo ''3'')
   \<and> length (filter (\<lambda>x. id_asset x = id_asset (photo ''3''))
        (assets (run ''ios'' [MediaPermission True,
           Settle 0 (page [''1'', ''2'', ''3''] ''c1'' False),
           SelectAsset (photo ''3''), Delete] init))) = 1
   \<and> Suc (length (assets (step ''ios'' (Settle 0 Done)
        (run ''ios'' [MediaPermission True,
           Settle 0 (page [''1'', ''2'', ''3''] ''c1'' False),
           SelectAsset (photo ''3''), Delete] init)))) = 3
   \<and> screen (step ''ios'' (Settle 0 Done)
        (run ''ios'' [MediaPermission True,
           Settle 0 (page [''1'', ''2'', ''3''] ''c1'' False),
           SelectAsset (photo ''3''), Delete] init)) = gallery"
proof -
  let ?s = "run ''ios'' [MediaPermission True,
         Settle 0 (page [''1'', ''2'', ''3''] ''c1'' False),
         SelectAsset (photo ''3''), Delete] init"
  have s: "?s = step ''ios'' Delete (run ''ios'' [MediaPermission True,
         Settle 0 (page [''1'', ''2'', ''3''] ''c1'' False),
         SelectAsset (photo ''3'')] init)"
    by (simp add: run_def)
  have p: "pending ?s = [DeleteAssets (photo ''3'')]"
    and a: "assets ?s = map photo [''1'', ''2'', ''3'']"
    unfolding s first_page_then_selected
    by (simp_all add: onDeleteSelected_def await_def)
  have h1: "0 < length (pending ?s)" and h2: "pending ?s ! 0 = DeleteAssets (photo ''3'')"
    unfolding p by simp_all
  have h3: "length (filter (\<lambda>x. id_asset x = id_asset (photo ''3'')) (assets ?s)) = 1"
    unfolding a by (simp add: photo_def)
  have n: "length (assets ?s) = 3"
    unfolding a by simp
  show ?thesis
    using h1 h2 h3 delete_removes_exactly_one [OF h1 h2 h3, of "''ios''"]
    unfolding n by blast
qed

text \<open>
  Claim C9. With no asset selected, \<open>onShareSelected\<close> and \<open>onDeleteSelected\<close> return
  the state they were given: nothing is added to the pending platform calls, and no
  field, notice included, changes.
\<close>

theorem null_selection_is_noop:
  assumes "selectedAsset s = None"
  shows "step os Share s = s \<and> step os Delete s = s"
  using assms by (simp add: onShareSelected_def onDeleteSelected_def)

theorem null_selection_is_noop_witness:
  "selectedAsset init = None
   \<and> step ''ios'' Share init = init \<and> step ''ios'' Delete init = init"
proof -
  have h: "selectedAsset init = None" by simp
  show ?thesis
    using h null_selection_is_noop [OF h, of "''ios''"] by blast
qed


subsection \<open>Failing platform calls\<close>

text \<open>
  Claim C6, as the code has it. In \<open>loadInitialAssets\<close>, \<open>loadMoreAssets\<close>,
  \<open>onDeleteSelected\<close> and \<open>onShareSelected\<close> a rejected platform call is caught in the
  handler: neither the part of the handler before the call nor its \<open>catch\<close> branch
  changes the asset list, the cursor, has-more, the selection or the screen, one notice is
  raised, and no rejection leaves the handler. \<open>refreshAssets\<close> differs in the cursor and
  has-more: it sets them to absent and true before the call, and the \<open>catch\<close> branch
  (that of \<open>loadInitialAssets\<close>) leaves them so; the asset list, the selection and the
  screen are as they were.
\<close>

theorem failed_call_leaves_state:
  "(core (loadInitialAssets fromShot s) = core s
      \<and> core (loadInitialAssets_resume None s) = core s
      \<and> alerts (loadInitialAssets_resume None s)
          = alerts s @ [(''Error'', ''Failed to load photos.'')]
      \<and> unhandledRejections (loadInitialAssets_resume None s) = unhandledRejections s)
   \<and> (core (loadMoreAssets s) = core s
      \<and> core (loadMoreAssets_resume None s) = core s
      \<and> alerts (loadMoreAssets_resume None s)
          = alerts s @ [(''Error'', ''Failed to load more photos.'')]
      \<and> unhandledRejections (loadMoreAssets_resume None s) = unhandledRejections s)
   \<and> (core (onDeleteSelected s) = core s
      \<and> core (onDeleteSelected_resume a None s) = core s
      \<and> alerts (onDeleteSelected_resume a None s)
          = alerts s @ [(''Delete failed'', ''Unable to delete this photo.'')]
      \<and> unhandledRejections (onDeleteSelected_resume a None s) = unhandledRejections s)
   \<and> (core (onShareSelected s) = core s
      \<and> core (onShareSelected_resume a None s) = core s
      \<and> core (onShareSelected_shared None s) = core s
      \<and> alerts (onShareSelected_resume a None s)
          = alerts s @ [(''Share failed'', ''Unable to share this photo.'')]
      \<and> alerts (onShareSelected_shared None s)
          = alerts s @ [(''Share failed'', ''Unable to share this photo.'')]
      \<and> unhandledRejections (onShareSelected_resume a None s) = unhandledRejections s
      \<and> unhandledRejections (onShareSelected_shared None s) = unhandledRejections s)
   \<and> (core (refreshAssets fromShot s) = (assets s, None, True, selectedAsset s, screen s)
      \<and> pending (refreshAssets fromShot s) = pending s @ [GetAssetsInitial fromShot]
      \<and> resume (GetAssetsInitial fromShot) Rejected
          = Some (\<lambda>s. onShotSaved_resume fromShot (loadInitialAssets_resume None s)))"
proof -
  have initial: "core (loadInitialAssets fromShot s) = core s
      \<and> core (loadInitialAssets_resume None s) = core s
      \<and> alerts (loadInitialAssets_resume None s)
          = alerts s @ [(''Error'', ''Failed to load photos.'')]
      \<and> unhandledRejections (loadInitialAssets_resume None s) = unhandledRejections s"
    by (simp add: core_def loadInitialAssets_def loadInitialAssets_resume_def
        alert_def await_def)
  have more: "core (loadMoreAssets s) = core s
      \<and> core (loadMoreAssets_resume None s) = core s
      \<and> alerts (loadMoreAssets_resume None s)
          = alerts s @ [(''Error'', ''Failed to load more photos.'')]
      \<and> unhandledRejections (loadMoreAssets_resume None s) = unhandledRejections s"
    by (simp add: core_def loadMoreAssets_def loadMoreAssets_resume_def
        alert_def await_def)
  have delete: "core (onDeleteSelected s) = core s
      \<and> core (onDeleteSelected_resume a None s) = core s
      \<and> alerts (onDeleteSelected_resume a None s)
          = alerts s @ [(''Delete failed'', ''Unable to delete this photo.'')]
      \<and> unhandledRejections (onDeleteSelected_resume a None s) = unhandledRejections s"
    by (simp add: core_def onDeleteSelected_def onDeleteSelected_resume_def
        alert_def await_def split: option.splits)
  have share: "core (onShareSelected s) = core s
      \<and> core (onShareSelected_resume a None s) = core s
      \<and> core (onShareSelected_shared None s) = core s
      \<and> alerts (onShareSelected_resume a None s)
          = alerts s @ [(''Share failed'', ''Unable to share this photo.'')]
      \<and> alerts (onShareSelected_shared None s)
          = alerts s @ [(''Share failed'', ''Unable to share this photo.'')]
      \<and> unhandledRejections (onShareSelected_resume a None s) = unhandledRejections s
      \<and> unhandledRejections (onShareSelected_shared None s) = unhandledRejections s"
    by (simp add: core_def onShareSelected_def onShareSelected_resume_def
        onShareSelected_shared_def alert_def await_def split: option.splits)
  have refresh: "core (refreshAssets fromShot s) = (assets s, None, True, selectedAsset s, screen s)
      \<and> pending (refreshAssets fromShot s) = pending s @ [GetAssetsInitial fromShot]
      \<and> resume (GetAssetsInitial fromShot) Rejected
          = Some (\<lambda>s. onShotSaved_resume fromShot (loadInitialAssets_resume None s))"
    by (simp add: core_def refreshAssets_def loadInitialAssets_def await_def)
  from initial more delete share refresh show ?thesis
    by (intro conjI) (erule conjE | assumption)+
qed

text \<open>
  Claim C6 as stated fails for refresh. A first page is loaded whose cursor is \<open>c1\<close> and
  whose has-more is false. Refresh is pressed and the platform call fails: the list is
  kept, but the cursor is now absent and has-more is true.
\<close>

theorem failed_refresh_counterexample:
  "core (run ''ios'' [MediaPermission True,
           Settle 0 (page [''1'', ''2'', ''3''] ''c1'' False)] init)
     = (map photo [''1'', ''2'', ''3''], Some ''c1'', False, None, gallery)
   \<and> core (run ''ios'' [MediaPermission True,
           Settle 0 (page [''1'', ''2'', ''3''] ''c1'' False),
           Refresh, Settle 0 Rejected] init)
     = (map photo [''1'', ''2'', ''3''], None, True, None, gallery)
   \<and> alerts (run ''ios'' [MediaPermission True,
           Settle 0 (page [''1'', ''2'', ''3''] ''c1'' False),
           Refresh, Settle 0 Rejected] init)
     = [(''Error'', ''Failed to load photos.'')]"
  by (simp add: run_def settle_def core_def handler_defs data_defs)

theorem failed_call_leaves_state_witness:
  "core (loadMoreAssets_resume None (run ''ios'' [MediaPermission True,
           Settle 0 (page [''1'', ''2'', ''3''] ''c1'' True), EndReached] init))
     = (map photo [''1'', ''2'', ''3''], Some ''c1'', True, None, gallery)
   \<and> core (refreshAssets False (run ''ios'' [MediaPermission True,
           Settle 0 (page [''1'', ''2'', ''3''] ''c1'' True)] init))
     = (map photo [''1'', ''2'', ''3''], None, True, None, gallery)"
proof -
  let ?s = "run ''ios'' [MediaPermission True,
           Settle 0 (page [''1'', ''2'', ''3''] ''c1'' True)] init"
  let ?t = "run ''ios'' [MediaPermission True,
           Settle 0 (page [''1'', ''2'', ''3''] ''c1'' True), EndReached] init"
  have t: "?t = loadMoreAssets ?s"
    by (simp add: run_def)
  have s: "core ?s = (map photo [''1'', ''2'', ''3''], Some ''c1'', True, None, gallery)"
    unfolding first_page_loaded by (simp add: core_def)
  have "core (loadMoreAssets_resume None ?t) = core ?t"
    using failed_call_leaves_state [of _ ?t] by blast
  also have "core ?t = core ?s"
    unfolding t using failed_call_leaves_state [of _ ?s] by blast
  finally have a: "core (loadMoreAssets_resume None ?t)
      = (map photo [''1'', ''2'', ''3''], Some ''c1'', True, None, gallery)"
    using s by simp
  have "core (refreshAssets False ?s) = (assets ?s, None, True, selectedAsset ?s, screen ?s)"
    using failed_call_leaves_state [of False ?s] by blast
  then have b: "core (refreshAssets False ?s)
      = (map photo [''1'', ''2'', ''3''], None, True, None, gallery)"
    using s by (simp add: core_def)
  from a b show ?thesis by blast
qed

subsection \<open>Screens\<close>

text \<open>
  Claim C7, as the code has it. After every event the screen is the viewer only if an
  asset is selected, and on a concurrent root this holds at every committed state. On a
  legacy root it holds at every committed state other than those committed while the
  rest of \<open>onDeleteSelected\<close> runs after a successful deletion. \<open>onSelectAsset\<close> sets the
  selection before the screen, so the state after its first setter satisfies it as
  well, and the viewer is rendered only with a selected asset, in every state.
\<close>

theorem viewer_selection_at_commits:
  "viewer_has_selection (run os evs init)
   \<and> (\<forall>x \<in> set (observed Concurrent os evs init). viewer_has_selection (snd x))
   \<and> (\<forall>x \<in> set (observed Legacy os evs init).
         viewer_has_selection (snd x) \<or> (\<exists>a. fst x = InContinuation (DeleteAssets a) Done))
   \<and> viewer_has_selection (s\<lparr>selectedAsset := Some a\<rparr>)
   \<and> step os (SelectAsset a) s = s\<lparr>selectedAsset := Some a\<rparr>\<lparr>screen := viewer\<rparr>
   \<and> (render s = ViewerView a \<longrightarrow> screen s = viewer \<and> selectedAsset s = Some a)"
proof -
  have i: "viewer_has_selection init"
    by (simp add: viewer_has_selection_def)
  then have "viewer_has_selection (run os evs init)"
    by (rule run_keeps_selection)
  moreover
  have "\<forall>x \<in> set (observed Concurrent os evs init). viewer_has_selection (snd x)"
    using i by (rule observed_concurrent)
  moreover
  have "\<forall>x \<in> set (observed Legacy os evs init).
         viewer_has_selection (snd x) \<or> (\<exists>a. fst x = InContinuation (DeleteAssets a) Done)"
    using i by (rule observed_legacy)
  moreover have "viewer_has_selection (s\<lparr>selectedAsset := Some a\<rparr>)"
    by (simp add: viewer_has_selection_def)
  moreover have "step os (SelectAsset a) s = s\<lparr>selectedAsset := Some a\<rparr>\<lparr>screen := viewer\<rparr>"
    by (simp add: onSelectAsset_def)
  ultimately show ?thesis
    using render_viewer [of s a] by blast
qed

text \<open>
  Claim C7 as stated fails on a legacy root. Photo 3 is selected and deleted; when the
  platform reports success, the second setter of lines 134-136 commits a state whose
  screen is the viewer and whose selection is null, before the third sets the screen.
\<close>

theorem delete_commit_counterexample:
  "(InContinuation (DeleteAssets (photo ''3'')) Done,
      init\<lparr>hasMediaPermission := Some True,
           assets := map photo [''1'', ''2''],
           endCursor := Some ''c1'', hasNextPage := False,
           selectedAsset := None, screen := viewer\<rparr>)
     \<in> set (observed Legacy ''ios'' [MediaPermission True,
          Settle 0 (page [''1'', ''2'', ''3''] ''c1'' False),
          SelectAsset (photo ''3''), Delete, Settle 0 Done] init)
   \<and> screen (init\<lparr>hasMediaPermission := Some True,
           assets := map photo [''1'', ''2''],
           endCursor := Some ''c1'', hasNextPage := False,
           selectedAsset := None, screen := viewer\<rparr>) = viewer
   \<and> selectedAsset (init\<lparr>hasMediaPermission := Some True,
           assets := map photo [''1'', ''2''],
           endCursor := Some ''c1'', hasNextPage := False,
           selectedAsset := None, screen := viewer\<rparr>) = None"
  by (simp add: settle_def handler_defs setters_defs data_defs)

theorem viewer_selection_at_commits_witness:
  "(AtRest, run ''ios'' [MediaPermission True,
       Settle 0 (page [''1'', ''2'', ''3''] ''c1'' True), SelectAsset (photo ''3'')] init)
     \<in> set (observed Concurrent ''ios'' [MediaPermission True,
       Settle 0 (page [''1'', ''2'', ''3''] ''c1'' True), SelectAsset (photo ''3'')] init)
   \<and> (AtRest, run ''ios'' [MediaPermission True,
       Settle 0 (page [''1'', ''2'', ''3''] ''c1'' True), SelectAsset (photo ''3'')] init)
     \<in> set (observed Legacy ''ios'' [MediaPermission True,
       Settle 0 (page [''1'', ''2'', ''3''] ''c1'' True), SelectAsset (photo ''3'')] init)
   \<and> screen (run ''ios'' [MediaPermission True,
       Settle 0 (page [''1'', ''2'', ''3''] ''c1'' True), SelectAsset (photo ''3'')] init)
     = viewer
   \<and> selectedAsset (run ''ios'' [MediaPermission True,
       Settle 0 (page [''1'', ''2'', ''3''] ''c1'' True), SelectAsset (photo ''3'')] init)
     \<noteq> None"
proof -
  let ?evs = "[MediaPermission True,
       Settle 0 (page [''1'', ''2'', ''3''] ''c1'' True), SelectAsset (photo ''3'')]"
  let ?s = "run ''ios'' ?evs init"
  have c: "(AtRest, ?s) \<in> set (observed Concurrent ''ios'' ?evs init)"
    and l: "(AtRest, ?s) \<in> set (observed Legacy ''ios'' ?evs init)"
    by (rule observed_end)+
  have h: "screen ?s = viewer"
    by (simp add: first_page_then_selected)
  have "viewer_has_selection (snd (AtRest, ?s))"
    using c viewer_selection_at_commits [of "''ios''" ?evs] by blast
  then have "selectedAsset ?s \<noteq> None"
    using h by (simp add: viewer_has_selection_def)
  with c l h show ?thesis by blast
qed

text \<open>
  Claim C8, as the code has it. On every platform other than the web, \<open>openCamera\<close>
  switches to the camera at once when the camera permission is granted already, and
  otherwise requests it and leaves the state as it was. When that request is answered,
  a grant switches to the camera; a denial raises the notice "Permission required" and
  leaves the screen as it was.
\<close>

theorem openCamera_gated_off_web:
  assumes "os \<noteq> ''web''"
  shows "(isGranted (cameraPermission s) \<longrightarrow> step os OpenCamera s = s\<lparr>screen := camera\<rparr>)
   \<and> (\<not> isGranted (cameraPermission s) \<longrightarrow>
        step os OpenCamera s = s\<lparr>pending := pending s @ [RequestCameraPermission]\<rparr>)
   \<and> (i < length (pending s') \<and> pending s' ! i = RequestCameraPermission \<longrightarrow>
        (if granted res
         then screen (step os (Settle i (Permission res)) s') = camera
            \<and> alerts (step os (Settle i (Permission res)) s') = alerts s'
         else screen (step os (Settle i (Permission res)) s') = screen s'
            \<and> alerts (step os (Settle i (Permission res)) s')
               = alerts s' @ [(''Permission required'',
                              ''Camera access is needed to take photos.'')]))"
proof -
  have call: "isGranted (cameraPermission s) \<longrightarrow> step os OpenCamera s = s\<lparr>screen := camera\<rparr>"
    and request: "\<not> isGranted (cameraPermission s) \<longrightarrow>
        step os OpenCamera s = s\<lparr>pending := pending s @ [RequestCameraPermission]\<rparr>"
    using assms by (simp_all add: openCamera_def await_def)
  have answer: "i < length (pending s') \<and> pending s' ! i = RequestCameraPermission \<longrightarrow>
        (if granted res
         then screen (step os (Settle i (Permission res)) s') = camera
            \<and> alerts (step os (Settle i (Permission res)) s') = alerts s'
         else screen (step os (Settle i (Permission res)) s') = screen s'
            \<and> alerts (step os (Settle i (Permission res)) s')
               = alerts s' @ [(''Permission required'',
                              ''Camera access is needed to take photos.'')])"
    by (simp add: settle_at openCamera_resume_def alert_def)
  from call request answer show ?thesis by blast
qed

text \<open>
  Claim C8 as stated fails on the web: the camera permission is not granted, the camera
  button is pressed, and no permission request is made; only the notice "Not supported"
  is raised.
\<close>

theorem openCamera_web_counterexample:
  "\<not> isGranted (cameraPermission (run ''web'' [MediaPermission True,
         Settle 0 (page [''1'', ''2'', ''3''] ''c1'' True)] init))
   \<and> pending (run ''web'' [MediaPermission True,
         Settle 0 (page [''1'', ''2'', ''3''] ''c1'' True), OpenCamera] init) = []
   \<and> alerts (run ''web'' [MediaPermission True,
         Settle 0 (page [''1'', ''2'', ''3''] ''c1'' True), OpenCamera] init)
       = [(''Not supported'', ''Camera is not supported on web in this demo.'')]"
  by (simp add: run_def settle_def handler_defs data_defs)

theorem openCamera_gated_off_web_witness:
  "''ios'' \<noteq> ''web''
   \<and> \<not> isGranted (cameraPermission init)
   \<and> pending (step ''ios'' OpenCamera init) = [RequestCameraPermission]
   \<and> screen (step ''ios'' (Settle 0 (Permission \<lparr>granted = False\<rparr>))
        (step ''ios'' OpenCamera init)) = gallery
   \<and> alerts (step ''ios'' (Settle 0 (Permission \<lparr>granted = False\<rparr>))
        (step ''ios'' OpenCamera init))
       = [(''Permission required'', ''Camera access is needed to take photos.'')]"
proof -
  have h: "''ios'' \<noteq> ''web''" by simp
  have g: "\<not> isGranted (cameraPermission init)"
    by (simp add: isGranted_def)
  let ?s' = "step ''ios'' OpenCamera init"
  have c: "?s' = init\<lparr>pending := pending init @ [RequestCameraPermission]\<rparr>"
    using g openCamera_gated_off_web [OF h, of init] by blast
  have p: "pending ?s' = [RequestCameraPermission]"
    and sc: "screen ?s' = gallery" and al: "alerts ?s' = []"
    by (subst c, simp)+
  have i: "0 < length (pending ?s') \<and> pending ?s' ! 0 = RequestCameraPermission"
    unfolding p by simp
  have "screen (step ''ios'' (Settle 0 (Permission \<lparr>granted = False\<rparr>)) ?s') = screen ?s'
      \<and> alerts (step ''ios'' (Settle 0 (Permission \<lparr>granted = False\<rparr>)) ?s')
         = alerts ?s' @ [(''Permission required'', ''Camera access is needed to take photos.'')]"
    using i openCamera_gated_off_web [OF h, of _ 0 ?s' "\<lparr>granted = False\<rparr>"] by simp
  then show ?thesis
    unfolding sc al using h g p by simp
qed

text \<open>
  Claim C10. On the web, \<open>openCamera\<close> raises the notice "Not supported" and does
  nothing else, whatever the camera permission is: no permission request is added to
  the pending calls and the screen is the one it was.
\<close>

theorem openCamera_refused_on_web:
  "step ''web'' OpenCamera s =
     s\<lparr>alerts := alerts s @ [(''Not supported'',
                              ''Camera is not supported on web in this demo.'')]\<rparr>
   \<and> screen (step ''web'' OpenCamera s) = screen s
   \<and> pending (step ''web'' OpenCamera s) = pending s
   \<and> cameraPermission (step ''web'' OpenCamera s) = cameraPermission s"
  by (simp add: openCamera_def alert_def)

theorem openCamera_refused_on_web_witness:
  "isGranted (cameraPermission (step ''web''
       (CameraPermissionHook (Some \<lparr>granted = True\<rparr>)) init))
   \<and> screen (step ''web'' OpenCamera (step ''web''
       (CameraPermissionHook (Some \<lparr>granted = True\<rparr>)) init)) = gallery
   \<and> pending (step ''web'' OpenCamera (step ''web''
       (CameraPermissionHook (Some \<lparr>granted = True\<rparr>)) init)) = []"
  using openCamera_refused_on_web
    [of "step ''web'' (CameraPermissionHook (Some \<lparr>granted = True\<rparr>)) init"]
  by (simp add: isGranted_def)

end
